theory Spec2Isabelle
  imports Main "HOL-Library.Word"
begin

unbundle bit_operations_syntax

section \<open>The server session of mcrouter (McServerSession.cpp)\<close>

text \<open>
  The session is a C++ object that is mutated by its member functions. Each member function
  becomes a function from the session record to either an error or the updated record.
  Collaborators whose code is not part of \<^verbatim>\<open>McServerSession.cpp\<close> (the transport, the
  parser, the request context, the multi-op parent, the lifecycle callbacks and the request
  handler) are not executed: every call the session makes into one of them is appended to
  the field \<open>trace\<close>, in program order. A collaborator that calls back into the session
  does so through one of the member functions below.

  \<^item> \<^verbatim>\<open>assert\<close> and \<^verbatim>\<open>CHECK\<close> are active: a failed assertion ends the call with an
    error.
  \<^item> Dereferencing an empty \<^verbatim>\<open>unique_ptr\<close>/\<^verbatim>\<open>shared_ptr\<close> ends the call with
    \<open>NullDeref\<close>; calling an empty \<^verbatim>\<open>std::function\<close> ends it with \<open>BadFunctionCall\<close>.
  \<^item> \<^verbatim>\<open>uint64_t\<close> and \<^verbatim>\<open>size_t\<close> are 64-bit words; \<open>+\<close> and \<open>-\<close> wrap around.
  \<^item> A member \<^verbatim>\<open>name_\<close> of the class is the field \<open>name\<close> of the record.
\<close>

subsection \<open>Data\<close>

type_synonym u64 = "64 word"

datatype error = NullDeref | AssertionFailed | CheckFailed | BadFunctionCall

datatype State = STREAMING | CLOSING | CLOSED

text \<open>
  Modelled from the spec: the enumerations \<^verbatim>\<open>mc_protocol_t\<close>, \<^verbatim>\<open>mc_op_t\<close> and
  \<^verbatim>\<open>mc_res_t\<close> are declared in a header that is not among the sources. The constructors the
  session names are listed; every other member of the enumeration is \<open>_other n\<close>.
\<close>

datatype mc_protocol_t =
  mc_unknown_protocol | mc_ascii_protocol | mc_binary_protocol | mc_umbrella_protocol

datatype mc_op_t =
  mc_op_unknown | mc_op_get | mc_op_gets | mc_op_lease_get | mc_op_metaget
  | mc_op_version | mc_op_quit | mc_op_shutdown | mc_op_end | mc_op_other nat

datatype mc_res_t =
  mc_res_unknown | mc_res_ok | mc_res_bad_key | mc_res_other nat

text \<open>
  Modelled from the spec: \<^verbatim>\<open>PauseReason\<close> is declared in \<^verbatim>\<open>McServerSession.h\<close>, which is
  not among the sources. The spec describes \<open>pause_mask\<close> as a bitset over the reasons
  \<open>Throttled\<close> and \<open>Write\<close>; each reason is one bit of a \<^verbatim>\<open>uint64_t\<close>.
\<close>

definition PAUSE_THROTTLED :: u64 where
  "PAUSE_THROTTLED = 1"

definition PAUSE_WRITE :: u64 where
  "PAUSE_WRITE = 2"

text \<open>An \<^verbatim>\<open>iovec\<close> is a base address and a length.\<close>

type_synonym iovec = "nat \<times> nat"

text \<open>
  Of a \<^verbatim>\<open>WriteBuffer\<close> the session reads the iovecs (\<^verbatim>\<open>getIovsBegin\<close>,
  \<^verbatim>\<open>getIovsCount\<close>) and the flag \<^verbatim>\<open>noReply()\<close>. A \<^verbatim>\<open>unique_ptr<WriteBuffer>\<close> that may
  be null is a \<open>WriteBuffer option\<close>.
\<close>

record WriteBuffer =
  wb_iovs :: "iovec list"
  wb_noReply :: bool

record McRequest =
  req_key :: string
  req_body :: string

record McReply =
  reply_result :: mc_res_t
  reply_payload :: string

text \<open>
  The multi-op parent is created by the session with the request id reserved for it; the rest
  of its state belongs to \<^verbatim>\<open>MultiOpParent.cpp\<close>.
\<close>

record MultiOpParent =
  parent_reqid :: u64

text \<open>
  The arguments of the constructor of \<^verbatim>\<open>McServerRequestContext\<close>, with the ASCII key
  snapshot that \<open>requestReady\<close> attaches to it.
\<close>

record McServerRequestContext =
  ctx_operation :: mc_op_t
  ctx_reqid :: u64
  ctx_noreply :: bool
  ctx_parent :: "MultiOpParent option"
  ctx_asciiKey :: "string option"

datatype MessageDirection = Sent | Received

text \<open>
  The calls that leave the session. \<open>QueueWriteCall\<close> is not a call to a collaborator: it
  records that \<open>queueWrite\<close> was entered and with which buffer, so that the order of these
  calls can be stated.
\<close>

datatype event =
  SetReadCB bool
  | TransportReset
  | TransportClose
  | Writev "iovec list"
  | RunInLoop
  | DebugFifo MessageDirection
  | OnWriteQuiescence
  | OnCloseStart
  | OnCloseFinish
  | OnShutdown
  | Destroy
  | OnRequest McServerRequestContext McRequest mc_op_t
  | OnTypedRequest nat string McServerRequestContext
  | ContextReply McServerRequestContext McReply
  | MultiOpCreate MultiOpParent
  | RecordEnd MultiOpParent u64
  | QueueWriteCall "WriteBuffer option"

text \<open>
  The transport (\<^verbatim>\<open>folly::AsyncTransportWrapper\<close>) is outside the repository. The session
  asks it \<^verbatim>\<open>good()\<close> and \<^verbatim>\<open>getEventBase()\<close>, and \<^verbatim>\<open>writev\<close> may finish before it
  returns, in which case it invokes \<open>writeSuccess\<close> or \<open>writeErr\<close> on the session from inside
  the call (the comment in \<open>queueWrite\<close> relies on this). \<open>tr_writev\<close> lists the outcome of
  the coming \<^verbatim>\<open>writev\<close> calls, the next one first; when the list is exhausted the write
  stays pending.
\<close>

datatype WritevResult = WvPending | WvSuccess | WvError

record Transport =
  tr_good :: bool
  tr_eventBase :: bool
  tr_writev :: "WritevResult list"

text \<open>The fields of \<^verbatim>\<open>AsyncMcServerWorkerOptions\<close> that the session reads.\<close>

record Options =
  maxInFlight :: u64
  singleWrite :: bool
  defaultVersionHandler :: bool
  versionString :: string

text \<open>
  The session. A \<^verbatim>\<open>std::function\<close> member is represented by whether it holds a target,
  the handler \<open>onRequest\<close> (a \<^verbatim>\<open>shared_ptr\<close>) by whether it is non-null;
  of the parser the session reads \<^verbatim>\<open>outOfOrder()\<close> and \<^verbatim>\<open>protocol()\<close>.
  \<open>pendingWrites\<close> holds the buffers themselves, since \<open>queueWrite\<close> never stores a null
  pointer there.
\<close>

record session =
  transport :: "Transport option"
  onRequest :: bool
  onWriteQuiescence :: bool
  onCloseStart :: bool
  onCloseFinish :: bool
  onShutdown :: bool
  options :: Options
  debugFifo :: bool
  parser_outOfOrder :: bool
  parser_protocol :: mc_protocol_t
  state :: State
  pauseState :: u64
  inFlight :: u64
  realRequestsInFlight :: u64
  headReqid :: u64
  tailReqid :: u64
  blockedReplies :: "u64 \<rightharpoonup> WriteBuffer option"
  pendingWrites :: "WriteBuffer list"
  writeBatches :: "u64 list"
  writeBufs :: "WriteBuffer list option"
  writeScheduled :: bool
  currentMultiop :: "MultiOpParent option"
  trace :: "event list"

subsection \<open>Sequencing\<close>

definition emit :: "event \<Rightarrow> session \<Rightarrow> session" where
  "emit e s = s\<lparr>trace := trace s @ [e]\<rparr>"

lemma emit_simps [simp]:
  "transport (emit e s) = transport s" "onRequest (emit e s) = onRequest s"
  "onWriteQuiescence (emit e s) = onWriteQuiescence s"
  "onCloseStart (emit e s) = onCloseStart s" "onCloseFinish (emit e s) = onCloseFinish s"
  "onShutdown (emit e s) = onShutdown s" "options (emit e s) = options s"
  "debugFifo (emit e s) = debugFifo s" "parser_outOfOrder (emit e s) = parser_outOfOrder s"
  "parser_protocol (emit e s) = parser_protocol s" "state (emit e s) = state s"
  "pauseState (emit e s) = pauseState s" "inFlight (emit e s) = inFlight s"
  "realRequestsInFlight (emit e s) = realRequestsInFlight s"
  "headReqid (emit e s) = headReqid s" "tailReqid (emit e s) = tailReqid s"
  "blockedReplies (emit e s) = blockedReplies s" "pendingWrites (emit e s) = pendingWrites s"
  "writeBatches (emit e s) = writeBatches s" "writeBufs (emit e s) = writeBufs s"
  "writeScheduled (emit e s) = writeScheduled s" "currentMultiop (emit e s) = currentMultiop s"
  "trace (emit e s) = trace s @ [e]"
  by (simp_all add: emit_def)

definition andThen :: "error + 'a \<Rightarrow> ('a \<Rightarrow> error + 'b) \<Rightarrow> error + 'b" where
  "andThen r f = (case r of Inl e \<Rightarrow> Inl e | Inr x \<Rightarrow> f x)"

text \<open>\<^verbatim>\<open>transport->setReadCB(cb)\<close>; the argument is whether \<open>cb\<close> is the session.\<close>

definition transport_setReadCB :: "bool \<Rightarrow> session \<Rightarrow> error + session" where
  "transport_setReadCB cb s =
     (case transport s of
        None \<Rightarrow> Inl NullDeref
      | Some t \<Rightarrow> Inr (emit (SetReadCB cb) s))"

subsection \<open>Pausing, accounting, closing\<close>

definition isPartOfMultiget :: "mc_protocol_t \<Rightarrow> mc_op_t \<Rightarrow> bool" where
  "isPartOfMultiget protocol operation =
     (if protocol \<noteq> mc_ascii_protocol then False
      else if operation = mc_op_get \<or> operation = mc_op_gets \<or>
              operation = mc_op_lease_get \<or> operation = mc_op_metaget then True
      else False)"

definition pause :: "u64 \<Rightarrow> session \<Rightarrow> error + session" where
  "pause reason s =
     transport_setReadCB False (s\<lparr>pauseState := pauseState s OR reason\<rparr>)"

definition resume :: "u64 \<Rightarrow> session \<Rightarrow> error + session" where
  "resume reason s =
     (let s1 = s\<lparr>pauseState := pauseState s AND NOT reason\<rparr> in
      if pauseState s1 = 0 \<and> state s1 = STREAMING then
        (case transport s1 of
           None \<Rightarrow> Inl NullDeref
         | Some t \<Rightarrow> if tr_good t then transport_setReadCB True s1 else Inr s1)
      else Inr s1)"

definition onTransactionStarted :: "bool \<Rightarrow> session \<Rightarrow> error + session" where
  "onTransactionStarted isSubRequest s =
     (let s1 = s\<lparr>inFlight := inFlight s + 1\<rparr>;
          s2 = (if \<not> isSubRequest
                then s1\<lparr>realRequestsInFlight := realRequestsInFlight s1 + 1\<rparr>
                else s1)
      in if maxInFlight (options s2) > 0 \<and>
            realRequestsInFlight s2 \<ge> maxInFlight (options s2)
         then pause PAUSE_THROTTLED s2
         else Inr s2)"

definition checkClosed :: "session \<Rightarrow> error + session" where
  "checkClosed s =
     (if inFlight s = 0 then
        if pendingWrites s \<noteq> [] then Inl AssertionFailed
        else if state s = CLOSING then
          (let s1 = s\<lparr>state := CLOSED\<rparr>;
               s2 = (case transport s1 of
                       None \<Rightarrow> s1
                     | Some t \<Rightarrow>
                         (emit TransportReset (emit (SetReadCB False) s1))
                           \<lparr>transport := None\<rparr>);
               s3 = (if onCloseFinish s2 then emit OnCloseFinish s2 else s2)
           in Inr (emit Destroy s3))
        else Inr s
      else Inr s)"

definition onTransactionCompleted :: "bool \<Rightarrow> session \<Rightarrow> error + session" where
  "onTransactionCompleted isSubRequest s =
     (if \<not> inFlight s > 0 then Inl AssertionFailed
      else
        let s1 = s\<lparr>inFlight := inFlight s - 1\<rparr> in
        andThen
          (if \<not> isSubRequest then
             if \<not> realRequestsInFlight s1 > 0 then Inl AssertionFailed
             else Inr (s1\<lparr>realRequestsInFlight := realRequestsInFlight s1 - 1\<rparr>)
           else Inr s1)
          (\<lambda>s2. andThen
             (if maxInFlight (options s2) > 0 \<and>
                 realRequestsInFlight s2 < maxInFlight (options s2)
              then resume PAUSE_THROTTLED s2
              else Inr s2)
             checkClosed))"

definition processMultiOpEnd :: "session \<Rightarrow> error + session" where
  "processMultiOpEnd s =
     (case currentMultiop s of
        None \<Rightarrow> Inl NullDeref
      | Some p \<Rightarrow>
          Inr ((emit (RecordEnd p (tailReqid s)) s)
                 \<lparr>tailReqid := tailReqid s + 1, currentMultiop := None\<rparr>))"

text \<open>
  \<open>closeWith cb\<close> is the body of \<^verbatim>\<open>close()\<close>; \<open>cb\<close> is what the \<open>onCloseStart\<close>
  callback does to the session while it runs. \<open>close\<close> is the function for a callback that
  does not call back into the session.
\<close>

definition closeWith :: "(session \<Rightarrow> error + session) \<Rightarrow> session \<Rightarrow> error + session" where
  "closeWith cb s =
     andThen
       (if currentMultiop s \<noteq> None then processMultiOpEnd s else Inr s)
       (\<lambda>s1. andThen
          (if state s1 = STREAMING then
             (let s2 = s1\<lparr>state := CLOSING\<rparr> in
              if onCloseStart s2 then cb (emit OnCloseStart s2) else Inr s2)
           else Inr s1)
          checkClosed)"

definition close :: "session \<Rightarrow> error + session" where
  "close = closeWith Inr"

subsection \<open>Write completion\<close>

text \<open>The loop \<^verbatim>\<open>while (count-- > 0) { assert(!writeBufs_->empty()); writeBufs_->pop(); }\<close>.\<close>

function popWriteBufs :: "u64 \<Rightarrow> session \<Rightarrow> error + session" where
  "popWriteBufs count s =
     (if count > 0 then
        (case writeBufs s of
           None \<Rightarrow> Inl NullDeref
         | Some [] \<Rightarrow> Inl AssertionFailed
         | Some (b # bs) \<Rightarrow> popWriteBufs (count - 1) (s\<lparr>writeBufs := Some bs\<rparr>))
      else Inr s)"
  by pat_completeness auto
termination
  by (relation "measure (\<lambda>(count, s). unat count)")
     (auto simp: word_greater_zero_iff unat_minus_one unat_gt_0)

declare popWriteBufs.simps [simp del]

definition completeWrite :: "session \<Rightarrow> error + session" where
  "completeWrite s =
     andThen
       (if singleWrite (options s) then Inr (1, s)
        else (case writeBatches s of
                [] \<Rightarrow> Inl AssertionFailed
              | c # rest \<Rightarrow> Inr (c, s\<lparr>writeBatches := rest\<rparr>)))
       (\<lambda>(count, s1). popWriteBufs count s1)"

definition writeSuccess :: "session \<Rightarrow> error + session" where
  "writeSuccess s =
     andThen (completeWrite s)
       (\<lambda>s1. case writeBufs s1 of
                None \<Rightarrow> Inl AssertionFailed
              | Some q \<Rightarrow>
                  if q = [] \<and> state s1 = STREAMING then
                    resume PAUSE_WRITE
                      (if onWriteQuiescence s1 then emit OnWriteQuiescence s1 else s1)
                  else Inr s1)"

definition writeErr :: "session \<Rightarrow> error + session" where
  "writeErr s = andThen (completeWrite s) close"

subsection \<open>Queueing and sending writes\<close>

text \<open>
  \<^verbatim>\<open>transport_->writev(this, iovs, count)\<close>: the call is recorded, and when the transport
  finishes the write before returning, the completion callback runs inside the call.
\<close>

definition transport_writev :: "iovec list \<Rightarrow> session \<Rightarrow> error + session" where
  "transport_writev iovs s =
     (case transport s of
        None \<Rightarrow> Inl NullDeref
      | Some t \<Rightarrow>
          (case tr_writev t of
             [] \<Rightarrow> Inr (emit (Writev iovs) s)
           | r # rs \<Rightarrow>
               (let s1 = emit (Writev iovs) (s\<lparr>transport := Some (t\<lparr>tr_writev := rs\<rparr>)\<rparr>) in
                case r of
                  WvPending \<Rightarrow> Inr s1
                | WvSuccess \<Rightarrow> writeSuccess s1
                | WvError \<Rightarrow> writeErr s1)))"

definition queueWrite :: "WriteBuffer option \<Rightarrow> session \<Rightarrow> error + session" where
  "queueWrite wb s =
     (let s0 = emit (QueueWriteCall wb) s in
      case wb of
        None \<Rightarrow> Inr s0
      | Some b \<Rightarrow>
          if singleWrite (options s0) then
            (case writeBufs s0 of
               None \<Rightarrow> Inl NullDeref
             | Some q \<Rightarrow>
                 andThen (transport_writev (wb_iovs b) (s0\<lparr>writeBufs := Some (q @ [b])\<rparr>))
                   (\<lambda>s1. let s2 = (if debugFifo s1 then emit (DebugFifo Sent) s1 else s1) in
                         case writeBufs s2 of
                           None \<Rightarrow> Inl NullDeref
                         | Some q2 \<Rightarrow> if q2 \<noteq> [] then pause PAUSE_WRITE s2 else Inr s2))
          else
            (let s1 = s0\<lparr>pendingWrites := pendingWrites s0 @ [b]\<rparr> in
             if \<not> writeScheduled s1 then
               (case transport s1 of
                  None \<Rightarrow> Inl NullDeref
                | Some t \<Rightarrow>
                    if \<not> tr_eventBase t then Inl CheckFailed
                    else Inr ((emit RunInLoop s1)\<lparr>writeScheduled := True\<rparr>))
             else Inr s1))"

text \<open>
  The loop of \<open>sendWrites\<close> over \<open>pendingWrites\<close>, with its local variables \<open>iovs\<close> and
  \<open>count\<close>.
\<close>

function sendWritesLoop ::
  "session \<Rightarrow> iovec list \<Rightarrow> u64 \<Rightarrow> error + (session \<times> iovec list \<times> u64)" where
  "sendWritesLoop s iovs count =
     (case pendingWrites s of
        [] \<Rightarrow> Inr (s, iovs, count)
      | wb # rest \<Rightarrow>
          (case writeBufs s of
             None \<Rightarrow> Inl NullDeref
           | Some q \<Rightarrow>
               sendWritesLoop
                 (s\<lparr>pendingWrites := rest, writeBufs := Some (q @ [wb])\<rparr>)
                 (if \<not> wb_noReply wb then iovs @ wb_iovs wb else iovs)
                 (count + 1)))"
  by pat_completeness auto
termination
  by (relation "measure (\<lambda>(s, iovs, count). length (pendingWrites s))") auto

declare sendWritesLoop.simps [simp del]

definition sendWrites :: "session \<Rightarrow> error + session" where
  "sendWrites s =
     andThen (sendWritesLoop (s\<lparr>writeScheduled := False\<rparr>) [] 0)
       (\<lambda>(s1, iovs, count).
          let s2 = s1\<lparr>writeBatches := writeBatches s1 @ [count]\<rparr>;
              s3 = (if debugFifo s2 then emit (DebugFifo Sent) s2 else s2)
          in transport_writev iovs s3)"

subsection \<open>What the functions below \<open>queueWrite\<close> leave alone\<close>

lemma andThen_Inr_iff: "andThen r f = Inr y \<longleftrightarrow> (\<exists>x. r = Inr x \<and> f x = Inr y)"
  by (cases r) (simp_all add: andThen_def)

lemma andThen_simps [simp]: "andThen (Inl e) f = Inl e" "andThen (Inr x) f = f x"
  by (simp_all add: andThen_def)

text \<open>The buffers \<open>queueWrite\<close> was called with, in the order of the calls.\<close>

fun queuedOf :: "event \<Rightarrow> WriteBuffer option list" where
  "queuedOf (QueueWriteCall wb) = [wb]"
| "queuedOf _ = []"

definition queued :: "event list \<Rightarrow> WriteBuffer option list" where
  "queued tr = concat (map queuedOf tr)"

lemma queued_append [simp]: "queued (xs @ ys) = queued xs @ queued ys"
  by (simp add: queued_def)

lemma queued_Nil [simp]: "queued [] = []"
  by (simp add: queued_def)

lemma queued_Cons [simp]: "queued (e # tr) = queuedOf e @ queued tr"
  by (simp add: queued_def)

definition replyFrame :: "session \<Rightarrow> session \<Rightarrow> bool" where
  "replyFrame s s' \<longleftrightarrow>
     blockedReplies s' = blockedReplies s \<and> headReqid s' = headReqid s \<and>
     parser_outOfOrder s' = parser_outOfOrder s \<and> queued (trace s') = queued (trace s)"

lemma replyFrame_refl [simp]: "replyFrame s s"
  by (simp add: replyFrame_def)

lemma transport_setReadCB_frame: "transport_setReadCB cb s = Inr s' \<Longrightarrow> replyFrame s s'"
  by (auto simp: transport_setReadCB_def replyFrame_def emit_def split: option.splits)

lemma pause_frame: "pause r s = Inr s' \<Longrightarrow> replyFrame s s'"
  by (auto simp: pause_def replyFrame_def dest!: transport_setReadCB_frame)

lemma resume_frame: "resume r s = Inr s' \<Longrightarrow> replyFrame s s'"
  by (auto simp: resume_def Let_def replyFrame_def split: option.splits if_splits
           dest!: transport_setReadCB_frame)

lemma checkClosed_frame: "checkClosed s = Inr s' \<Longrightarrow> replyFrame s s'"
  by (auto simp: checkClosed_def Let_def replyFrame_def emit_def
           split: option.splits if_splits)

lemma processMultiOpEnd_frame: "processMultiOpEnd s = Inr s' \<Longrightarrow> replyFrame s s'"
  by (auto simp: processMultiOpEnd_def replyFrame_def emit_def split: option.splits)

lemma close_frame: "close s = Inr s' \<Longrightarrow> replyFrame s s'"
  unfolding close_def closeWith_def
  by (auto simp: andThen_Inr_iff Let_def replyFrame_def emit_def split: if_splits
           dest!: processMultiOpEnd_frame checkClosed_frame)

lemma popWriteBufs_frame: "popWriteBufs c s = Inr s' \<Longrightarrow> replyFrame s s'"
proof (induction c s rule: popWriteBufs.induct)
  case (1 count s)
  then show ?case
    by (subst (asm) (2) popWriteBufs.simps)
       (auto simp: replyFrame_def split: if_splits option.splits list.splits)
qed

lemma completeWrite_frame: "completeWrite s = Inr s' \<Longrightarrow> replyFrame s s'"
  unfolding completeWrite_def
  by (auto simp: andThen_Inr_iff replyFrame_def split: if_splits list.splits
           dest!: popWriteBufs_frame)

lemma writeSuccess_frame: "writeSuccess s = Inr s' \<Longrightarrow> replyFrame s s'"
  unfolding writeSuccess_def
  by (auto simp: andThen_Inr_iff replyFrame_def emit_def split: if_splits option.splits
           dest!: completeWrite_frame resume_frame)

lemma writeErr_frame: "writeErr s = Inr s' \<Longrightarrow> replyFrame s s'"
  unfolding writeErr_def
  by (auto simp: andThen_Inr_iff replyFrame_def dest!: completeWrite_frame close_frame)

lemma transport_writev_frame: "transport_writev iovs s = Inr s' \<Longrightarrow> replyFrame s s'"
  unfolding transport_writev_def
  by (auto simp: Let_def replyFrame_def emit_def
           split: option.splits list.splits WritevResult.splits
           dest!: writeSuccess_frame writeErr_frame)

lemma queueWrite_frame:
  assumes "queueWrite wb s = Inr s'"
  shows "blockedReplies s' = blockedReplies s" and "headReqid s' = headReqid s"
    and "parser_outOfOrder s' = parser_outOfOrder s"
    and "queued (trace s') = queued (trace s) @ [wb]"
  using assms unfolding queueWrite_def
  by (auto simp: andThen_Inr_iff Let_def replyFrame_def emit_def
           split: option.splits if_splits
           dest!: transport_writev_frame pause_frame)

subsection \<open>Replies\<close>

text \<open>
  The loop of \<open>reply\<close>. It is entered after \<^verbatim>\<open>it = blockedReplies_.find(++headReqid_)\<close>, so
  the iterator \<open>it\<close> is the entry of \<open>blockedReplies\<close> at \<open>headReqid\<close>, if there is one; the
  entry erased after \<open>queueWrite\<close> is the one \<open>it\<close> points to.
\<close>

function replyLoop :: "session \<Rightarrow> error + session" where
  "replyLoop s =
     (case blockedReplies s (headReqid s) of
        None \<Rightarrow> Inr s
      | Some wb \<Rightarrow>
          (case queueWrite wb s of
             Inl e \<Rightarrow> Inl e
           | Inr s1 \<Rightarrow>
               replyLoop
                 (s1\<lparr>blockedReplies := (blockedReplies s1)(headReqid s := None),
                     headReqid := headReqid s1 + 1\<rparr>)))"
  by pat_completeness auto
termination
proof (relation "measure (\<lambda>s. card (dom (blockedReplies s)))")
  show "wf (measure (\<lambda>s. card (dom (blockedReplies s))))"
    by simp
next
  fix s :: session and wb s1
  assume found: "blockedReplies s (headReqid s) = Some wb"
    and queue: "queueWrite wb s = Inr s1"
  have "blockedReplies s1 = blockedReplies s"
    using queue by (rule queueWrite_frame)
  moreover have "card (dom (blockedReplies s) - {headReqid s}) < card (dom (blockedReplies s))"
    using found by (intro card_Diff1_less) auto
  ultimately show
    "(s1\<lparr>blockedReplies := (blockedReplies s1)(headReqid s := None),
         headReqid := headReqid s1 + 1\<rparr>, s)
     \<in> measure (\<lambda>s. card (dom (blockedReplies s)))"
    by simp
qed

declare replyLoop.simps [simp del]

text \<open>
  \<^verbatim>\<open>blockedReplies_.emplace(reqid, std::move(wb))\<close> inserts only when the map has no entry
  for \<open>reqid\<close>.
\<close>

definition reply :: "WriteBuffer option \<Rightarrow> u64 \<Rightarrow> session \<Rightarrow> error + session" where
  "reply wb reqid s =
     (if parser_outOfOrder s then queueWrite wb s
      else if reqid = headReqid s then
        andThen (queueWrite wb s)
          (\<lambda>s1. replyLoop (s1\<lparr>headReqid := headReqid s1 + 1\<rparr>))
      else
        Inr (if blockedReplies s reqid = None
             then s\<lparr>blockedReplies := (blockedReplies s)(reqid \<mapsto> wb)\<rparr>
             else s))"

subsection \<open>Calls from the transport and the parser\<close>

text \<open>
  \<open>parsed\<close> is what \<^verbatim>\<open>parser_.readDataAvailable(len)\<close> returns. The requests the parser
  delivers while it runs are calls of \<open>requestReady\<close>, \<open>typedRequestReady\<close>, \<open>multiOpEnd\<close> and
  \<open>parseError\<close>.
\<close>

definition readDataAvailable :: "bool \<Rightarrow> session \<Rightarrow> error + session" where
  "readDataAvailable parsed s =
     (let s1 = (if debugFifo s then emit (DebugFifo Received) s else s) in
      if \<not> parsed then close s1 else Inr s1)"

definition readEOF :: "session \<Rightarrow> error + session" where
  "readEOF s = close s"

definition readErr :: "session \<Rightarrow> error + session" where
  "readErr s = close s"

definition multiOpEnd :: "session \<Rightarrow> error + session" where
  "multiOpEnd s = (if state s \<noteq> STREAMING then Inr s else processMultiOpEnd s)"

text \<open>
  The reply submitted through a context (\<^verbatim>\<open>McServerRequestContext::reply\<close>) is a call into
  \<^verbatim>\<open>McServerRequestContext.cpp\<close> and is recorded with the context and the reply.
\<close>

definition requestReady ::
  "McRequest \<Rightarrow> mc_op_t \<Rightarrow> u64 \<Rightarrow> mc_res_t \<Rightarrow> bool \<Rightarrow> session \<Rightarrow> error + session" where
  "requestReady req operation reqid result noreply s =
     (if state s \<noteq> STREAMING then Inr s
      else
        let (s1, reqid1) =
              (if \<not> parser_outOfOrder s then
                 (let s0 =
                        (if isPartOfMultiget (parser_protocol s) operation \<and>
                            currentMultiop s = None
                         then
                           (let p = \<lparr>parent_reqid = tailReqid s\<rparr> in
                            (emit (MultiOpCreate p) s)
                              \<lparr>currentMultiop := Some p, tailReqid := tailReqid s + 1\<rparr>)
                         else s)
                  in (s0\<lparr>tailReqid := tailReqid s0 + 1\<rparr>, tailReqid s0))
               else (s, reqid));
            ctx = \<lparr>ctx_operation = operation, ctx_reqid = reqid1, ctx_noreply = noreply,
                   ctx_parent = currentMultiop s1,
                   ctx_asciiKey = (if parser_protocol s1 = mc_ascii_protocol
                                   then Some (req_key req) else None)\<rparr>
        in
          if result = mc_res_bad_key then
            Inr (emit (ContextReply ctx
                         \<lparr>reply_result = mc_res_bad_key, reply_payload = []\<rparr>) s1)
          else if ctx_operation ctx = mc_op_version \<and> defaultVersionHandler (options s1) then
            Inr (emit (ContextReply ctx
                         \<lparr>reply_result = mc_res_ok,
                          reply_payload = versionString (options s1)\<rparr>) s1)
          else if ctx_operation ctx = mc_op_quit then
            close (emit (ContextReply ctx
                           \<lparr>reply_result = mc_res_ok, reply_payload = []\<rparr>) s1)
          else if ctx_operation ctx = mc_op_shutdown then
            (let s2 = emit (ContextReply ctx
                              \<lparr>reply_result = mc_res_ok, reply_payload = []\<rparr>) s1
             in if onShutdown s2 then Inr (emit OnShutdown s2) else Inl BadFunctionCall)
          else if onRequest s1 then Inr (emit (OnRequest ctx req (ctx_operation ctx)) s1)
          else Inl NullDeref)"

text \<open>
  Modelled from the spec: the constructor of the context is declared in
  \<^verbatim>\<open>McServerRequestContext.h\<close>, which is not among the sources; called with a session, an
  operation and an id only, it leaves \<open>noreply\<close> false and the context without parent and
  without key snapshot.
\<close>

definition plainContext :: "mc_op_t \<Rightarrow> u64 \<Rightarrow> McServerRequestContext" where
  "plainContext operation reqid =
     \<lparr>ctx_operation = operation, ctx_reqid = reqid, ctx_noreply = False,
      ctx_parent = None, ctx_asciiKey = None\<rparr>"

definition typedRequestReady :: "nat \<Rightarrow> string \<Rightarrow> u64 \<Rightarrow> session \<Rightarrow> error + session" where
  "typedRequestReady typeId reqBody reqid s =
     (if state s \<noteq> STREAMING then Inr s
      else if \<not> parser_outOfOrder s then Inl AssertionFailed
      else if onRequest s then
        Inr (emit (OnTypedRequest typeId reqBody (plainContext mc_op_unknown reqid)) s)
      else Inl NullDeref)"

definition parseError :: "mc_res_t \<Rightarrow> string \<Rightarrow> session \<Rightarrow> error + session" where
  "parseError result reason s =
     (if state s \<noteq> STREAMING then Inr s
      else
        close
          (emit (ContextReply (plainContext mc_op_unknown (tailReqid s))
                   \<lparr>reply_result = result, reply_payload = reason\<rparr>)
             (s\<lparr>tailReqid := tailReqid s + 1\<rparr>)))"

text \<open>
  \<open>supported\<close> tells for which protocols the constructor of \<^verbatim>\<open>WriteBufferQueue\<close> (in
  \<^verbatim>\<open>WriteBuffer.h\<close>, not among the sources) returns instead of throwing.
\<close>

definition ensureWriteBufs ::
  "(mc_protocol_t \<Rightarrow> bool) \<Rightarrow> session \<Rightarrow> error + (bool \<times> session)" where
  "ensureWriteBufs supported s =
     (if writeBufs s = None then
        if supported (parser_protocol s) then Inr (True, s\<lparr>writeBufs := Some []\<rparr>)
        else
          (case transport s of
             None \<Rightarrow> Inl NullDeref
           | Some t \<Rightarrow> Inr (False, emit TransportClose s))
      else Inr (True, s))"

subsection \<open>Creation and runs\<close>

text \<open>
  Modelled from the spec: the initial values of the members are set in
  \<^verbatim>\<open>McServerSession.h\<close>, which is not among the sources. \<open>create\<close> asserts that a new
  session is \<open>STREAMING\<close>; request ids start at 0, nothing is in flight, nothing is paused and
  no write is scheduled. \<open>create\<close> returns the session after \<^verbatim>\<open>setReadCB(ptr)\<close>.
\<close>

definition create ::
  "Transport \<Rightarrow> bool \<Rightarrow> bool \<Rightarrow> bool \<Rightarrow> bool \<Rightarrow> bool \<Rightarrow> Options \<Rightarrow> bool \<Rightarrow>
   bool \<Rightarrow> mc_protocol_t \<Rightarrow> session" where
  "create t cb onWriteQuiescence' onCloseStart' onCloseFinish' onShutdown' opts fifo
     outOfOrder protocol =
     emit (SetReadCB True)
       \<lparr>transport = Some t, onRequest = cb, onWriteQuiescence = onWriteQuiescence',
        onCloseStart = onCloseStart', onCloseFinish = onCloseFinish',
        onShutdown = onShutdown', options = opts, debugFifo = fifo,
        parser_outOfOrder = outOfOrder, parser_protocol = protocol,
        state = STREAMING, pauseState = 0, inFlight = 0, realRequestsInFlight = 0,
        headReqid = 0, tailReqid = 0, blockedReplies = Map.empty, pendingWrites = [],
        writeBatches = [], writeBufs = None, writeScheduled = False,
        currentMultiop = None, trace = []\<rparr>"

text \<open>The member functions as calls, and the session after a sequence of calls.\<close>

datatype call =
  Pause u64
  | Resume u64
  | OnTransactionStarted bool
  | OnTransactionCompleted bool
  | Reply "WriteBuffer option" u64
  | Close
  | ReadDataAvailable bool
  | ReadEOF
  | ReadErr
  | MultiOpEnd
  | RequestReady McRequest mc_op_t u64 mc_res_t bool
  | TypedRequestReady nat string u64
  | ParseError mc_res_t string
  | EnsureWriteBufs "mc_protocol_t \<Rightarrow> bool"
  | QueueWrite "WriteBuffer option"
  | SendWrites
  | WriteSuccess
  | WriteErr

fun step :: "call \<Rightarrow> session \<Rightarrow> error + session" where
  "step (Pause r) s = pause r s"
| "step (Resume r) s = resume r s"
| "step (OnTransactionStarted sub) s = onTransactionStarted sub s"
| "step (OnTransactionCompleted sub) s = onTransactionCompleted sub s"
| "step (Reply wb reqid) s = reply wb reqid s"
| "step Close s = close s"
| "step (ReadDataAvailable parsed) s = readDataAvailable parsed s"
| "step ReadEOF s = readEOF s"
| "step ReadErr s = readErr s"
| "step MultiOpEnd s = multiOpEnd s"
| "step (RequestReady req operation reqid result noreply) s =
     requestReady req operation reqid result noreply s"
| "step (TypedRequestReady typeId reqBody reqid) s = typedRequestReady typeId reqBody reqid s"
| "step (ParseError result reason) s = parseError result reason s"
| "step (EnsureWriteBufs supported) s = andThen (ensureWriteBufs supported s) (\<lambda>(ok, s1). Inr s1)"
| "step (QueueWrite wb) s = queueWrite wb s"
| "step SendWrites s = sendWrites s"
| "step WriteSuccess s = writeSuccess s"
| "step WriteErr s = writeErr s"

fun run :: "call list \<Rightarrow> session \<Rightarrow> error + session" where
  "run [] s = Inr s"
| "run (c # cs) s = andThen (step c s) (run cs)"

subsection \<open>The lifecycle of a session across calls\<close>

fun rank :: "State \<Rightarrow> nat" where
  "rank STREAMING = 0"
| "rank CLOSING = 1"
| "rank CLOSED = 2"

fun isHandlerCall :: "event \<Rightarrow> bool" where
  "isHandlerCall (OnRequest ctx req operation) = True"
| "isHandlerCall (OnTypedRequest typeId reqBody ctx) = True"
| "isHandlerCall _ = False"

record lifecycle =
  lc_state :: State
  lc_released :: bool
  lc_onCloseStart :: bool
  lc_onCloseFinish :: bool
  lc_starts :: nat
  lc_finishes :: nat
  lc_destroys :: nat
  lc_resets :: nat
  lc_handler :: "event list"

definition lifecycleOf :: "session \<Rightarrow> lifecycle" where
  "lifecycleOf s =
     \<lparr>lc_state = state s, lc_released = (transport s = None),
      lc_onCloseStart = onCloseStart s, lc_onCloseFinish = onCloseFinish s,
      lc_starts = count_list (trace s) OnCloseStart,
      lc_finishes = count_list (trace s) OnCloseFinish,
      lc_destroys = count_list (trace s) Destroy,
      lc_resets = count_list (trace s) TransportReset,
      lc_handler = filter isHandlerCall (trace s)\<rparr>"

definition lifeStep :: "lifecycle \<Rightarrow> lifecycle \<Rightarrow> bool" where
  "lifeStep a b \<longleftrightarrow>
     lc_onCloseStart b = lc_onCloseStart a \<and> lc_onCloseFinish b = lc_onCloseFinish a \<and>
     rank (lc_state a) \<le> rank (lc_state b) \<and>
     lc_starts b = lc_starts a +
       (if lc_state a = STREAMING \<and> lc_state b \<noteq> STREAMING \<and> lc_onCloseStart a then 1 else 0) \<and>
     lc_finishes b = lc_finishes a +
       (if lc_state a \<noteq> CLOSED \<and> lc_state b = CLOSED \<and> lc_onCloseFinish a then 1 else 0) \<and>
     lc_destroys b = lc_destroys a +
       (if lc_state a \<noteq> CLOSED \<and> lc_state b = CLOSED then 1 else 0) \<and>
     lc_resets b = lc_resets a +
       (if lc_state a \<noteq> CLOSED \<and> lc_state b = CLOSED \<and> \<not> lc_released a then 1 else 0) \<and>
     (lc_released b \<longleftrightarrow> lc_released a \<or> (lc_state a \<noteq> CLOSED \<and> lc_state b = CLOSED)) \<and>
     (lc_state a \<noteq> STREAMING \<longrightarrow> lc_handler b = lc_handler a)"

definition progress :: "session \<Rightarrow> session \<Rightarrow> bool" where
  "progress s s' \<longleftrightarrow> lifeStep (lifecycleOf s) (lifecycleOf s')"

lemma lifeStep_refl [simp]: "lifeStep a a"
  by (simp add: lifeStep_def)

lemma lifeStep_trans: "lifeStep a b \<Longrightarrow> lifeStep b c \<Longrightarrow> lifeStep a c"
  unfolding lifeStep_def
  by (cases "lc_state a"; cases "lc_state b"; cases "lc_state c"; simp)

lemma progress_refl [simp]: "progress s s"
  by (simp add: progress_def)

lemma progress_trans: "progress s s1 \<Longrightarrow> progress s1 s2 \<Longrightarrow> progress s s2"
  unfolding progress_def by (rule lifeStep_trans)

lemma lifecycleOf_update [simp]:
  "lifecycleOf (s\<lparr>pauseState := v1\<rparr>) = lifecycleOf s"
  "lifecycleOf (s\<lparr>inFlight := v2\<rparr>) = lifecycleOf s"
  "lifecycleOf (s\<lparr>realRequestsInFlight := v3\<rparr>) = lifecycleOf s"
  "lifecycleOf (s\<lparr>headReqid := v4\<rparr>) = lifecycleOf s"
  "lifecycleOf (s\<lparr>tailReqid := v5\<rparr>) = lifecycleOf s"
  "lifecycleOf (s\<lparr>blockedReplies := v6\<rparr>) = lifecycleOf s"
  "lifecycleOf (s\<lparr>pendingWrites := v7\<rparr>) = lifecycleOf s"
  "lifecycleOf (s\<lparr>writeBatches := v8\<rparr>) = lifecycleOf s"
  "lifecycleOf (s\<lparr>writeBufs := v9\<rparr>) = lifecycleOf s"
  "lifecycleOf (s\<lparr>writeScheduled := v10\<rparr>) = lifecycleOf s"
  "lifecycleOf (s\<lparr>currentMultiop := v11\<rparr>) = lifecycleOf s"
  by (simp_all add: lifecycleOf_def)

lemma lifecycleOf_transport [simp]:
  "transport s \<noteq> None \<Longrightarrow> lifecycleOf (s\<lparr>transport := Some t\<rparr>) = lifecycleOf s"
  by (simp add: lifecycleOf_def)

fun plainEvent :: "event \<Rightarrow> bool" where
  "plainEvent OnCloseStart = False"
| "plainEvent OnCloseFinish = False"
| "plainEvent Destroy = False"
| "plainEvent TransportReset = False"
| "plainEvent (OnRequest ctx req operation) = False"
| "plainEvent (OnTypedRequest typeId reqBody ctx) = False"
| "plainEvent _ = True"

lemma lifecycleOf_emit [simp]: "plainEvent e \<Longrightarrow> lifecycleOf (emit e s) = lifecycleOf s"
  by (cases e) (simp_all add: lifecycleOf_def emit_def)

lemma progress_handler:
  "state s = STREAMING \<Longrightarrow> progress s (emit e s)" if "isHandlerCall e"
  using that by (cases e) (simp_all add: progress_def lifeStep_def lifecycleOf_def emit_def)

lemma transport_setReadCB_progress: "transport_setReadCB cb s = Inr s' \<Longrightarrow> progress s s'"
  by (auto simp: transport_setReadCB_def progress_def split: option.splits)

lemma pause_progress: "pause r s = Inr s' \<Longrightarrow> progress s s'"
  unfolding pause_def by (drule transport_setReadCB_progress) (simp add: progress_def)

lemma resume_progress: "resume r s = Inr s' \<Longrightarrow> progress s s'"
  unfolding resume_def Let_def
  by (auto simp: progress_def split: option.splits if_splits
           dest!: transport_setReadCB_progress)


lemma progress_update [simp]:
  "progress (s\<lparr>pauseState := v1\<rparr>) t = progress s t"
  "progress (s\<lparr>inFlight := v2\<rparr>) t = progress s t"
  "progress (s\<lparr>realRequestsInFlight := v3\<rparr>) t = progress s t"
  "progress (s\<lparr>headReqid := v4\<rparr>) t = progress s t"
  "progress (s\<lparr>tailReqid := v5\<rparr>) t = progress s t"
  "progress (s\<lparr>blockedReplies := v6\<rparr>) t = progress s t"
  "progress (s\<lparr>pendingWrites := v7\<rparr>) t = progress s t"
  "progress (s\<lparr>writeBatches := v8\<rparr>) t = progress s t"
  "progress (s\<lparr>writeBufs := v9\<rparr>) t = progress s t"
  "progress (s\<lparr>writeScheduled := v10\<rparr>) t = progress s t"
  "progress (s\<lparr>currentMultiop := v11\<rparr>) t = progress s t"
  "progress t (s\<lparr>pauseState := v1\<rparr>) = progress t s"
  "progress t (s\<lparr>inFlight := v2\<rparr>) = progress t s"
  "progress t (s\<lparr>realRequestsInFlight := v3\<rparr>) = progress t s"
  "progress t (s\<lparr>headReqid := v4\<rparr>) = progress t s"
  "progress t (s\<lparr>tailReqid := v5\<rparr>) = progress t s"
  "progress t (s\<lparr>blockedReplies := v6\<rparr>) = progress t s"
  "progress t (s\<lparr>pendingWrites := v7\<rparr>) = progress t s"
  "progress t (s\<lparr>writeBatches := v8\<rparr>) = progress t s"
  "progress t (s\<lparr>writeBufs := v9\<rparr>) = progress t s"
  "progress t (s\<lparr>writeScheduled := v10\<rparr>) = progress t s"
  "progress t (s\<lparr>currentMultiop := v11\<rparr>) = progress t s"
  by (simp_all add: progress_def)

lemma progress_emit [simp]:
  "plainEvent e \<Longrightarrow> progress (emit e s) t = progress s t"
  "plainEvent e \<Longrightarrow> progress t (emit e s) = progress t s"
  by (simp_all add: progress_def)

lemma progress_transport [simp]:
  "transport s \<noteq> None \<Longrightarrow> progress (s\<lparr>transport := Some tr\<rparr>) t = progress s t"
  "transport s \<noteq> None \<Longrightarrow> progress t (s\<lparr>transport := Some tr\<rparr>) = progress t s"
  by (simp_all add: progress_def)

text \<open>The session after the transition from \<open>CLOSING\<close> to \<open>CLOSED\<close> in \<open>checkClosed\<close>.\<close>

definition closedEvents :: "session \<Rightarrow> event list" where
  "closedEvents s =
     (if transport s \<noteq> None then [SetReadCB False, TransportReset] else []) @
     (if onCloseFinish s then [OnCloseFinish] else []) @ [Destroy]"

lemma checkClosed_cases:
  assumes "checkClosed s = Inr s'"
  shows "(s' = s \<and> \<not> (inFlight s = 0 \<and> state s = CLOSING)) \<or>
         (inFlight s = 0 \<and> pendingWrites s = [] \<and> state s = CLOSING \<and>
          s' = s\<lparr>state := CLOSED, transport := None, trace := trace s @ closedEvents s\<rparr>)"
  using assms unfolding checkClosed_def Let_def closedEvents_def emit_def
  by (cases s) (auto split: if_splits option.splits)

lemma closed_progress:
  "state s = CLOSING \<Longrightarrow>
   progress s (s\<lparr>state := CLOSED, transport := None, trace := trace s @ closedEvents s\<rparr>)"
  by (simp add: progress_def lifeStep_def lifecycleOf_def closedEvents_def)

lemma checkClosed_progress: "checkClosed s = Inr s' \<Longrightarrow> progress s s'"
  by (drule checkClosed_cases) (auto intro: closed_progress)

lemma processMultiOpEnd_progress: "processMultiOpEnd s = Inr s' \<Longrightarrow> progress s s'"
  by (auto simp: processMultiOpEnd_def split: option.splits)

lemma closing_progress:
  "state s = STREAMING \<Longrightarrow> onCloseStart s \<Longrightarrow>
   progress s (emit OnCloseStart (s\<lparr>state := CLOSING\<rparr>))"
  "state s = STREAMING \<Longrightarrow> \<not> onCloseStart s \<Longrightarrow> progress s (s\<lparr>state := CLOSING\<rparr>)"
  by (simp_all add: progress_def lifeStep_def lifecycleOf_def emit_def)

lemma close_progress: "close s = Inr s' \<Longrightarrow> progress s s'"
  unfolding close_def closeWith_def Let_def
  apply (clarsimp simp: andThen_Inr_iff split: if_splits)
  apply (blast dest!: processMultiOpEnd_progress checkClosed_progress
              intro: progress_trans closing_progress)+
  done

lemma popWriteBufs_progress: "popWriteBufs c s = Inr s' \<Longrightarrow> progress s s'"
proof (induction c s rule: popWriteBufs.induct)
  case (1 count s)
  then show ?case
    by (subst (asm) (2) popWriteBufs.simps)
       (auto split: if_splits option.splits list.splits)
qed

lemma completeWrite_progress: "completeWrite s = Inr s' \<Longrightarrow> progress s s'"
  unfolding completeWrite_def
  by (auto simp: andThen_Inr_iff split: if_splits list.splits dest!: popWriteBufs_progress)

lemma writeSuccess_progress: "writeSuccess s = Inr s' \<Longrightarrow> progress s s'"
  unfolding writeSuccess_def
  by (auto simp: andThen_Inr_iff split: if_splits option.splits
           dest!: completeWrite_progress resume_progress intro: progress_trans)

lemma writeErr_progress: "writeErr s = Inr s' \<Longrightarrow> progress s s'"
  unfolding writeErr_def
  by (auto simp: andThen_Inr_iff dest!: completeWrite_progress close_progress
           intro: progress_trans)

lemma transport_writev_progress: "transport_writev iovs s = Inr s' \<Longrightarrow> progress s s'"
  unfolding transport_writev_def Let_def
  by (auto split: option.splits list.splits WritevResult.splits
           dest!: writeSuccess_progress writeErr_progress)

lemma andThen_InrE:
  assumes "andThen r f = Inr y"
  obtains x where "r = Inr x" and "f x = Inr y"
  using assms by (auto simp: andThen_Inr_iff)

lemma queueWrite_progress: "queueWrite wb s = Inr s' \<Longrightarrow> progress s s'"
  unfolding queueWrite_def Let_def
  by (auto split: option.splits if_splits elim!: andThen_InrE
           dest!: transport_writev_progress pause_progress; blast intro: progress_trans)

lemma replyLoop_progress: "replyLoop s = Inr s' \<Longrightarrow> progress s s'"
proof (induction s rule: replyLoop.induct)
  case (1 s)
  show ?case
  proof (cases "blockedReplies s (headReqid s)")
    case None
    with "1.prems" show ?thesis by (simp add: replyLoop.simps)
  next
    case (Some wb)
    with "1.prems" obtain s1 where q: "queueWrite wb s = Inr s1"
      and r: "replyLoop (s1\<lparr>blockedReplies := (blockedReplies s1)(headReqid s := None),
                            headReqid := headReqid s1 + 1\<rparr>) = Inr s'"
      by (subst (asm) replyLoop.simps) (auto split: sum.splits)
    from "1.IH" [OF Some q r] queueWrite_progress [OF q] show ?thesis
      by (auto intro: progress_trans)
  qed
qed

lemma reply_progress: "reply wb reqid s = Inr s' \<Longrightarrow> progress s s'"
  unfolding reply_def
  by (auto split: if_splits
           dest!: queueWrite_progress replyLoop_progress elim!: andThen_InrE; blast intro: progress_trans)

lemma sendWritesLoop_progress:
  "sendWritesLoop s iovs c = Inr (s', iovs', c') \<Longrightarrow> progress s s'"
proof (induction s iovs c rule: sendWritesLoop.induct)
  case (1 s iovs count)
  then show ?case
    by (subst (asm) (2) sendWritesLoop.simps)
       (auto split: list.splits option.splits)
qed

lemma sendWrites_progress: "sendWrites s = Inr s' \<Longrightarrow> progress s s'"
  unfolding sendWrites_def Let_def
  by (auto split: if_splits
           dest!: sendWritesLoop_progress transport_writev_progress elim!: andThen_InrE; blast intro: progress_trans)

lemma onTransactionStarted_progress: "onTransactionStarted sub s = Inr s' \<Longrightarrow> progress s s'"
  unfolding onTransactionStarted_def Let_def
  by (auto split: if_splits dest!: pause_progress)

lemma onTransactionCompleted_progress:
  "onTransactionCompleted sub s = Inr s' \<Longrightarrow> progress s s'"
  unfolding onTransactionCompleted_def Let_def
  by (auto split: if_splits
           dest!: resume_progress checkClosed_progress elim!: andThen_InrE; blast intro: progress_trans)

lemma readDataAvailable_progress: "readDataAvailable parsed s = Inr s' \<Longrightarrow> progress s s'"
  unfolding readDataAvailable_def Let_def
  by (auto split: if_splits dest!: close_progress)

lemma multiOpEnd_progress: "multiOpEnd s = Inr s' \<Longrightarrow> progress s s'"
  unfolding multiOpEnd_def
  by (auto split: if_splits dest!: processMultiOpEnd_progress)

lemma lifeStep_handler:
  "lc_state b = STREAMING \<Longrightarrow> lifeStep a (b\<lparr>lc_handler := h\<rparr>) = lifeStep a b"
  by (cases "lc_state a") (simp_all add: lifeStep_def)

lemma lifecycleOf_emit_handler:
  "isHandlerCall e \<Longrightarrow>
   lifecycleOf (emit e t) = (lifecycleOf t)\<lparr>lc_handler := lc_handler (lifecycleOf t) @ [e]\<rparr>"
  by (cases e) (simp_all add: lifecycleOf_def)

lemma lc_state_lifecycleOf [simp]: "lc_state (lifecycleOf s) = state s"
  by (simp add: lifecycleOf_def)

lemma progress_emit_handler [simp]:
  "isHandlerCall e \<Longrightarrow> state t = STREAMING \<Longrightarrow> progress s (emit e t) = progress s t"
  by (simp add: progress_def lifecycleOf_emit_handler lifeStep_handler)

lemma requestReady_progress:
  "requestReady req operation reqid result noreply s = Inr s' \<Longrightarrow> progress s s'"
  unfolding requestReady_def Let_def
  by (auto split: if_splits prod.splits dest!: close_progress)

lemma typedRequestReady_progress:
  "typedRequestReady typeId reqBody reqid s = Inr s' \<Longrightarrow> progress s s'"
  unfolding typedRequestReady_def
  by (auto split: if_splits)

lemma parseError_progress: "parseError result reason s = Inr s' \<Longrightarrow> progress s s'"
  unfolding parseError_def
  by (auto split: if_splits dest!: close_progress)

lemma ensureWriteBufs_progress: "ensureWriteBufs supported s = Inr (ok, s') \<Longrightarrow> progress s s'"
  unfolding ensureWriteBufs_def
  by (auto split: if_splits option.splits)

lemma step_progress: "step c s = Inr s' \<Longrightarrow> progress s s'"
  by (cases c)
     (auto simp: readEOF_def readErr_def elim!: andThen_InrE
           dest: pause_progress resume_progress onTransactionStarted_progress
             onTransactionCompleted_progress reply_progress close_progress
             readDataAvailable_progress multiOpEnd_progress requestReady_progress
             typedRequestReady_progress parseError_progress ensureWriteBufs_progress
             queueWrite_progress sendWrites_progress writeSuccess_progress writeErr_progress)

lemma run_progress: "run cs s = Inr s' \<Longrightarrow> progress s s'"
  by (induction cs arbitrary: s)
     (auto elim!: andThen_InrE dest: step_progress intro: progress_trans)

subsection \<open>Closing twice\<close>

lemma progress_rank: "progress s s' \<Longrightarrow> rank (state s) \<le> rank (state s')"
  by (simp add: progress_def lifeStep_def)

lemma progress_not_streaming: "progress s s' \<Longrightarrow> state s \<noteq> STREAMING \<Longrightarrow> state s' \<noteq> STREAMING"
  by (drule progress_rank) (cases "state s"; cases "state s'"; simp)

lemma progress_handler_calls:
  "progress s s' \<Longrightarrow> state s \<noteq> STREAMING \<Longrightarrow>
   filter isHandlerCall (trace s') = filter isHandlerCall (trace s)"
  by (simp add: progress_def lifeStep_def lifecycleOf_def)

text \<open>What \<open>close\<close> does before it calls \<open>checkClosed\<close>.\<close>

definition closePrefix :: "session \<Rightarrow> error + session" where
  "closePrefix s =
     andThen (if currentMultiop s \<noteq> None then processMultiOpEnd s else Inr s)
       (\<lambda>s1. if state s1 = STREAMING then
               (let s2 = s1\<lparr>state := CLOSING\<rparr> in
                Inr (if onCloseStart s2 then emit OnCloseStart s2 else s2))
             else Inr s1)"

lemma close_closePrefix: "close s = andThen (closePrefix s) checkClosed"
  unfolding close_def closeWith_def closePrefix_def Let_def
  by (cases "if currentMultiop s \<noteq> None then processMultiOpEnd s else Inr s")
     (simp_all)

lemma closePrefix_result:
  "closePrefix s = Inr x \<Longrightarrow> currentMultiop x = None \<and> state x \<noteq> STREAMING"
  unfolding closePrefix_def Let_def
  by (auto simp: processMultiOpEnd_def split: if_splits option.splits elim!: andThen_InrE)

lemma closePrefix_closed:
  "currentMultiop x = None \<Longrightarrow> state x \<noteq> STREAMING \<Longrightarrow> closePrefix x = Inr x"
  by (simp add: closePrefix_def)

lemma checkClosed_idem:
  assumes "checkClosed x = Inr y"
  shows "checkClosed y = Inr y" and "currentMultiop y = currentMultiop x"
    and "state x \<noteq> STREAMING \<Longrightarrow> state y \<noteq> STREAMING"
  using checkClosed_cases [OF assms] assms
  by (auto simp: checkClosed_def)

lemma andThen_checkClosed_idem: "andThen (checkClosed x) checkClosed = checkClosed x"
  by (cases "checkClosed x") (simp_all add: checkClosed_idem)

lemma close_not_streaming: "close s = Inr s' \<Longrightarrow> state s' \<noteq> STREAMING \<and> currentMultiop s' = None"
  unfolding close_closePrefix
  by (auto elim!: andThen_InrE dest!: closePrefix_result dest: checkClosed_idem)

lemma close_idem: "close s = Inr s' \<Longrightarrow> close s' = Inr s'"
proof -
  assume c: "close s = Inr s'"
  then obtain x where x: "closePrefix s = Inr x" and y: "checkClosed x = Inr s'"
    unfolding close_closePrefix by (auto elim!: andThen_InrE)
  from close_not_streaming [OF c] have "closePrefix s' = Inr s'"
    by (simp add: closePrefix_closed)
  then show ?thesis
    unfolding close_closePrefix using checkClosed_idem(1) [OF y] by simp
qed

lemma run_replicate_Close: "run (replicate (Suc n) Close) s = close s"
proof (induction n)
  case 0
  show ?case by (cases "close s") simp_all
next
  case (Suc n)
  have "run (replicate (Suc (Suc n)) Close) s = andThen (close s) (run (replicate (Suc n) Close))"
    by simp
  also have "\<dots> = close s"
  proof (cases "close s")
    case (Inl e)
    then show ?thesis by simp
  next
    case (Inr s')
    have "run (replicate (Suc n) Close) s' = close s'"
    proof (induction n)
      case 0
      show ?case by (cases "close s'") simp_all
    next
      case (Suc m)
      then show ?case using close_idem [OF Inr] by simp
    qed
    then show ?thesis using Inr close_idem [OF Inr] by simp
  qed
  finally show ?case .
qed

lemma close_when_closing:
  "currentMultiop y = None \<Longrightarrow> state y \<noteq> STREAMING \<Longrightarrow> close y = checkClosed y"
  by (simp add: close_closePrefix closePrefix_closed)

lemma closeWith_close: "closeWith close s = close s"
proof (cases "if currentMultiop s \<noteq> None then processMultiOpEnd s else Inr s")
  case (Inl e)
  then show ?thesis by (simp add: close_def closeWith_def)
next
  case (Inr s1)
  then have m: "currentMultiop s1 = None"
    by (auto simp: processMultiOpEnd_def split: if_splits option.splits)
  show ?thesis
  proof (cases "state s1 = STREAMING \<and> onCloseStart s1")
    case True
    let ?y = "emit OnCloseStart (s1\<lparr>state := CLOSING\<rparr>)"
    have "close ?y = checkClosed ?y"
      using m by (intro close_when_closing) simp_all
    then show ?thesis
      using Inr True
      by (simp add: close_def [of] closeWith_def andThen_checkClosed_idem)
  next
    case False
    then show ?thesis
      using Inr by (auto simp: close_def closeWith_def)
  qed
qed

subsection \<open>Example sessions\<close>

text \<open>
  A session over a healthy transport whose writes stay pending, with every callback set, the
  ASCII protocol and the in-order parser; \<open>maxIn\<close> is \<open>maxInFlight\<close> and \<open>single\<close> is
  \<open>singleWrite\<close>.
\<close>

definition exampleTransport :: Transport where
  "exampleTransport = \<lparr>tr_good = True, tr_eventBase = True, tr_writev = []\<rparr>"

definition exampleOptions :: "u64 \<Rightarrow> bool \<Rightarrow> Options" where
  "exampleOptions maxIn single =
     \<lparr>maxInFlight = maxIn, singleWrite = single, defaultVersionHandler = True,
      versionString = ''1.0''\<rparr>"

definition exampleSession :: "u64 \<Rightarrow> bool \<Rightarrow> session" where
  "exampleSession maxIn single =
     create exampleTransport True True True True True (exampleOptions maxIn single) False
       False mc_ascii_protocol"

lemmas example_defs =
  exampleSession_def exampleOptions_def exampleTransport_def create_def

lemma exampleSession_fields:
  "state (exampleSession m b) = STREAMING" "inFlight (exampleSession m b) = 0"
  "currentMultiop (exampleSession m b) = None" "pendingWrites (exampleSession m b) = []"
  "transport (exampleSession m b) = Some exampleTransport"
  "onCloseStart (exampleSession m b)" "onCloseFinish (exampleSession m b)"
  "trace (exampleSession m b) = [SetReadCB True]"
  "options (exampleSession m b) = exampleOptions m b"
  "realRequestsInFlight (exampleSession m b) = 0" "pauseState (exampleSession m b) = 0"
  "headReqid (exampleSession m b) = 0" "tailReqid (exampleSession m b) = 0"
  "blockedReplies (exampleSession m b) = Map.empty" "writeBufs (exampleSession m b) = None"
  "writeBatches (exampleSession m b) = []" "\<not> writeScheduled (exampleSession m b)"
  "\<not> parser_outOfOrder (exampleSession m b)"
  "parser_protocol (exampleSession m b) = mc_ascii_protocol"
  "onRequest (exampleSession m b)" "onShutdown (exampleSession m b)"
  "onWriteQuiescence (exampleSession m b)" "\<not> debugFifo (exampleSession m b)"
  by (simp_all add: example_defs)

lemma exampleOptions_fields [simp]:
  "maxInFlight (exampleOptions m b) = m" "singleWrite (exampleOptions m b) = b"
  "defaultVersionHandler (exampleOptions m b)" "versionString (exampleOptions m b) = ''1.0''"
  by (simp_all add: exampleOptions_def)

lemma close_exampleSession:
  "close (exampleSession m b) =
     Inr ((exampleSession m b)
            \<lparr>state := CLOSED, transport := None,
             trace := [SetReadCB True, OnCloseStart, SetReadCB False, TransportReset,
                       OnCloseFinish, Destroy]\<rparr>)"
  by (simp add: close_def closeWith_def checkClosed_def Let_def exampleSession_fields)

section \<open>Pausing and resuming\<close>

lemma mask_clear_eq: "(x AND NOT r = x) \<longleftrightarrow> (x AND r = 0)" for x r :: u64
  by (metis (no_types, lifting) and.commute and_zero_eq bit.conj_cancel_left
    bit.conj_disj_distrib bit.de_Morgan_conj bit.xor_left_self
    disjunctive_and_not_eq_xor)

text \<open>
  Claim C8, as amended. On a session that still has its transport, \<open>pause r\<close> followed by
  \<open>resume r\<close> succeeds and leaves \<open>pauseState\<close> with the bits of \<open>r\<close> cleared and every
  other bit as before; the mask equals its value before the two calls exactly when no bit of
  \<open>r\<close> was set before them.
\<close>

theorem pause_resume_mask:
  assumes "transport s = Some t"
  shows "\<exists>s2. andThen (pause r s) (resume r) = Inr s2 \<and>
              pauseState s2 = pauseState s AND NOT r \<and>
              (pauseState s2 = pauseState s \<longleftrightarrow> pauseState s AND r = 0)"
proof -
  have "\<exists>s2. andThen (pause r s) (resume r) = Inr s2 \<and>
             pauseState s2 = pauseState s AND NOT r"
    using assms
    by (auto simp: pause_def resume_def transport_setReadCB_def Let_def
                   bit.conj_disj_distrib2)
  then show ?thesis
    using mask_clear_eq [of "pauseState s" r] by auto
qed

theorem pause_resume_mask_witness:
  "transport (exampleSession 0 False) = Some exampleTransport \<and>
   (\<exists>s2. andThen (pause PAUSE_WRITE (exampleSession 0 False)) (resume PAUSE_WRITE) = Inr s2 \<and>
         pauseState s2 = 0)"
proof -
  have t: "transport (exampleSession 0 False) = Some exampleTransport"
    by (simp add: example_defs)
  have p: "pauseState (exampleSession 0 False) = 0"
    by (simp add: example_defs)
  from pause_resume_mask [OF t, of PAUSE_WRITE] show ?thesis
    using t by (auto simp: p)
qed

text \<open>
  Claim C8 as stated fails once the reason is already set. With \<open>maxInFlight = 1\<close>, one
  started request throttles the session (\<open>pauseState = 1\<close>); \<open>pause\<close> and \<open>resume\<close> with the
  reason \<open>PAUSE_THROTTLED\<close> then leave \<open>pauseState = 0\<close>.
\<close>

theorem pause_resume_counterexample:
  "map_sum id pauseState (run [OnTransactionStarted False] (exampleSession 1 False)) = Inr 1 \<and>
   map_sum id pauseState
     (run [OnTransactionStarted False, Pause PAUSE_THROTTLED, Resume PAUSE_THROTTLED]
        (exampleSession 1 False)) = Inr 0"
  by (simp add: example_defs onTransactionStarted_def pause_def resume_def
        transport_setReadCB_def PAUSE_THROTTLED_def Let_def)

section \<open>Closing\<close>

text \<open>
  Claim C7. Calling \<open>close\<close> any number \<open>n + 1\<close> of times in a row gives the result of one
  call (the same session, with the same trace of callbacks, or the same error); a \<open>close\<close>
  that the \<open>onCloseStart\<close> callback makes from inside \<open>close\<close>, once or \<open>n\<close> times, does not
  change the result of the outer call either. A second \<open>close\<close> returns the session
  unchanged, \<open>OnCloseStart\<close> is recorded at most once by a \<open>close\<close>, and never again by
  any later sequence of calls.
\<close>

theorem close_idempotent:
  "run (replicate (Suc n) Close) s = close s \<and>
   closeWith close s = close s \<and>
   closeWith (run (replicate n Close)) s = close s \<and>
   (close s = Inr s' \<longrightarrow>
      close s' = Inr s' \<and>
      count_list (trace s') OnCloseStart \<le> count_list (trace s) OnCloseStart + 1 \<and>
      (run cs s' = Inr s'' \<longrightarrow>
         count_list (trace s'') OnCloseStart = count_list (trace s') OnCloseStart))"
proof (intro conjI impI)
  show "run (replicate (Suc n) Close) s = close s"
    by (rule run_replicate_Close)
  show "closeWith close s = close s"
    by (rule closeWith_close)
  show "closeWith (run (replicate n Close)) s = close s"
  proof (cases n)
    case 0
    have "run [] = Inr" by (rule ext) simp
    with 0 show ?thesis by (simp add: close_def)
  next
    case (Suc m)
    have "run (replicate (Suc m) Close) = close"
      by (rule ext) (rule run_replicate_Close)
    with Suc show ?thesis by (simp only: closeWith_close)
  qed
next
  assume c: "close s = Inr s'"
  show "close s' = Inr s'"
    using c by (rule close_idem)
  show "count_list (trace s') OnCloseStart \<le> count_list (trace s) OnCloseStart + 1"
    using close_progress [OF c] by (simp add: progress_def lifeStep_def lifecycleOf_def)
  assume r: "run cs s' = Inr s''"
  have "state s' \<noteq> STREAMING"
    using close_not_streaming [OF c] by simp
  then show "count_list (trace s'') OnCloseStart = count_list (trace s') OnCloseStart"
    using run_progress [OF r] by (simp add: progress_def lifeStep_def lifecycleOf_def)
qed

theorem close_idempotent_witness:
  "\<exists>s'. close (exampleSession 0 False) = Inr s' \<and>
        run [Close, Close, Close] (exampleSession 0 False) = Inr s' \<and>
        close s' = Inr s' \<and> state s' = CLOSED \<and>
        count_list (trace s') OnCloseStart = 1 \<and>
        (\<exists>s''. run [ReadEOF] s' = Inr s'' \<and> count_list (trace s'') OnCloseStart = 1)"
proof -
  let ?s = "exampleSession 0 False"
  obtain s' where c: "close ?s = Inr s'" and st: "state s' = CLOSED"
    and n: "count_list (trace s') OnCloseStart = 1"
    using close_exampleSession [of 0 False] by simp
  from close_idempotent [of 2 ?s s' "[ReadEOF]" s'] c
  have r: "run [Close, Close, Close] ?s = Inr s'" and i: "close s' = Inr s'"
    by (simp_all add: numeral_3_eq_3 numeral_2_eq_2)
  have e: "run [ReadEOF] s' = Inr s'"
    using i by (simp add: readEOF_def)
  show ?thesis
    using c r i st n e by auto
qed

text \<open>
  Claim C10. Once the state is not \<open>STREAMING\<close>, \<open>requestReady\<close>, \<open>typedRequestReady\<close>,
  \<open>parseError\<close> and \<open>multiOpEnd\<close> return the session as it is: no field changes, so no
  request id is consumed and nothing is added to the trace. \<open>close\<close> leaves the state
  \<open>CLOSING\<close> or \<open>CLOSED\<close>, and from such a session no sequence of calls whatsoever adds a
  call of the handler (\<open>OnRequest\<close>, \<open>OnTypedRequest\<close>) to the trace.
\<close>

theorem not_streaming_no_requests:
  "(close s0 = Inr s \<longrightarrow> state s \<noteq> STREAMING) \<and>
   (state s \<noteq> STREAMING \<longrightarrow>
      requestReady req operation reqid result noreply s = Inr s \<and>
      typedRequestReady typeId reqBody reqid' s = Inr s \<and>
      parseError result' reason s = Inr s \<and>
      multiOpEnd s = Inr s \<and>
      (run cs s = Inr s' \<longrightarrow>
         filter isHandlerCall (trace s') = filter isHandlerCall (trace s)))"
proof (intro conjI impI)
  assume "close s0 = Inr s"
  then show "state s \<noteq> STREAMING"
    using close_not_streaming by blast
next
  assume n: "state s \<noteq> STREAMING"
  show "requestReady req operation reqid result noreply s = Inr s"
    using n by (simp add: requestReady_def)
  show "typedRequestReady typeId reqBody reqid' s = Inr s"
    using n by (simp add: typedRequestReady_def)
  show "parseError result' reason s = Inr s"
    using n by (simp add: parseError_def)
  show "multiOpEnd s = Inr s"
    using n by (simp add: multiOpEnd_def)
  assume "run cs s = Inr s'"
  then show "filter isHandlerCall (trace s') = filter isHandlerCall (trace s)"
    using n by (intro progress_handler_calls run_progress)
qed

theorem not_streaming_no_requests_witness:
  "\<exists>s. close (exampleSession 0 False) = Inr s \<and> state s = CLOSED \<and>
       requestReady \<lparr>req_key = ''k'', req_body = []\<rparr> mc_op_get 7 mc_res_ok False s = Inr s \<and>
       typedRequestReady 1 ''b'' 7 s = Inr s \<and>
       parseError mc_res_unknown ''bad'' s = Inr s \<and>
       multiOpEnd s = Inr s \<and>
       run [RequestReady \<lparr>req_key = ''k'', req_body = []\<rparr> mc_op_get 7 mc_res_ok False,
            TypedRequestReady 1 ''b'' 7] s = Inr s \<and>
       filter isHandlerCall (trace s) = []"
proof -
  let ?s0 = "exampleSession 0 False"
  let ?req = "\<lparr>req_key = ''k'', req_body = []\<rparr>"
  obtain s where c: "close ?s0 = Inr s" and st: "state s = CLOSED"
    and h: "filter isHandlerCall (trace s) = []"
    using close_exampleSession [of 0 False] by simp
  have n: "state s \<noteq> STREAMING"
    using st by simp
  note t = not_streaming_no_requests
    [of ?s0 s ?req mc_op_get 7 mc_res_ok False 1 "''b''" 7 mc_res_unknown "''bad''"
       "[RequestReady ?req mc_op_get 7 mc_res_ok False, TypedRequestReady 1 ''b'' 7]" s]
  from t n have a: "requestReady ?req mc_op_get 7 mc_res_ok False s = Inr s"
    and b: "typedRequestReady 1 ''b'' 7 s = Inr s"
    and d: "parseError mc_res_unknown ''bad'' s = Inr s"
    and e: "multiOpEnd s = Inr s"
    by simp_all
  have r: "run [RequestReady ?req mc_op_get 7 mc_res_ok False, TypedRequestReady 1 ''b'' 7] s
             = Inr s"
    using a b by simp
  show ?thesis
    using c st a b d e r h by blast
qed

fun closedOnce :: "session \<Rightarrow> session \<Rightarrow> nat" where
  "closedOnce s s' = (if state s \<noteq> CLOSED \<and> state s' = CLOSED then 1 else 0)"

text \<open>
  Claim C2. Over every sequence of calls the state only moves forward in the order
  \<open>STREAMING\<close>, \<open>CLOSING\<close>, \<open>CLOSED\<close>, and a \<open>CLOSED\<close> session stays \<open>CLOSED\<close>. A sequence of
  calls that takes the session to \<open>CLOSED\<close> records \<open>Destroy\<close> exactly once, \<open>TransportReset\<close>
  exactly once if the session held its transport, and \<open>OnCloseFinish\<close> exactly once if that
  callback is set, and leaves the session without transport; any other sequence records none
  of them. The state changes in \<open>checkClosed\<close> only from \<open>CLOSING\<close> to \<open>CLOSED\<close>, only with
  \<open>inFlight = 0\<close> and \<open>pendingWrites\<close> empty, and then the session differs from the one before
  exactly by the new state, the released transport and the events \<open>closedEvents\<close>: the read
  callback detached and the transport reset, \<open>OnCloseFinish\<close>, \<open>Destroy\<close>. A \<open>close\<close> that
  reaches \<open>CLOSED\<close> leaves \<open>inFlight = 0\<close> and \<open>pendingWrites\<close> empty.
\<close>

theorem state_progression:
  "(run cs s = Inr s' \<longrightarrow>
      rank (state s) \<le> rank (state s') \<and>
      (state s = CLOSED \<longrightarrow> state s' = CLOSED) \<and>
      count_list (trace s') OnCloseFinish =
        count_list (trace s) OnCloseFinish + (if onCloseFinish s then closedOnce s s' else 0) \<and>
      count_list (trace s') Destroy = count_list (trace s) Destroy + closedOnce s s' \<and>
      count_list (trace s') TransportReset =
        count_list (trace s) TransportReset +
        (if transport s \<noteq> None then closedOnce s s' else 0) \<and>
      (closedOnce s s' = 1 \<longrightarrow> transport s' = None)) \<and>
   (checkClosed s = Inr s' \<and> state s' \<noteq> state s \<longrightarrow>
      state s = CLOSING \<and> state s' = CLOSED \<and> inFlight s = 0 \<and> pendingWrites s = [] \<and>
      s' = s\<lparr>state := CLOSED, transport := None, trace := trace s @ closedEvents s\<rparr>) \<and>
   (close s = Inr s' \<and> closedOnce s s' = 1 \<longrightarrow> inFlight s' = 0 \<and> pendingWrites s' = [])"
proof (intro conjI impI)
  assume "run cs s = Inr s'"
  then have p: "progress s s'"
    by (rule run_progress)
  show "rank (state s) \<le> rank (state s')"
    using p by (rule progress_rank)
  then show "state s' = CLOSED" if "state s = CLOSED"
    using that by (cases "state s'") simp_all
  show "count_list (trace s') OnCloseFinish =
          count_list (trace s) OnCloseFinish + (if onCloseFinish s then closedOnce s s' else 0)"
    using p by (simp add: progress_def lifeStep_def lifecycleOf_def)
  show "count_list (trace s') Destroy = count_list (trace s) Destroy + closedOnce s s'"
    using p by (simp add: progress_def lifeStep_def lifecycleOf_def)
  show "count_list (trace s') TransportReset =
          count_list (trace s) TransportReset +
          (if transport s \<noteq> None then closedOnce s s' else 0)"
    using p by (simp add: progress_def lifeStep_def lifecycleOf_def)
  show "transport s' = None" if "closedOnce s s' = 1"
    using p that by (simp add: progress_def lifeStep_def lifecycleOf_def split: if_splits)
next
  assume a: "checkClosed s = Inr s' \<and> state s' \<noteq> state s"
  then have c: "inFlight s = 0 \<and> pendingWrites s = [] \<and> state s = CLOSING \<and>
      s' = s\<lparr>state := CLOSED, transport := None, trace := trace s @ closedEvents s\<rparr>"
    using checkClosed_cases [of s s'] by auto
  then show "state s = CLOSING" "inFlight s = 0" "pendingWrites s = []"
    "s' = s\<lparr>state := CLOSED, transport := None, trace := trace s @ closedEvents s\<rparr>"
    by simp_all
  from c have "state s' = state (s\<lparr>state := CLOSED, transport := None,
      trace := trace s @ closedEvents s\<rparr>)"
    by simp
  then show "state s' = CLOSED"
    by simp
next
  assume a: "close s = Inr s' \<and> closedOnce s s' = 1"
  then obtain x where x: "closePrefix s = Inr x" and y: "checkClosed x = Inr s'"
    unfolding close_closePrefix by (auto elim!: andThen_InrE)
  have "state x \<noteq> CLOSED"
    using x a unfolding closePrefix_def Let_def
    by (auto simp: processMultiOpEnd_def split: if_splits option.splits elim!: andThen_InrE)
  then have "state s' \<noteq> state x"
    using a by (simp split: if_splits)
  then have "inFlight x = 0 \<and> pendingWrites x = [] \<and>
      s' = x\<lparr>state := CLOSED, transport := None, trace := trace x @ closedEvents x\<rparr>"
    using checkClosed_cases [OF y] by auto
  then show "inFlight s' = 0" "pendingWrites s' = []"
    by simp_all
qed

theorem state_progression_witness:
  "(\<exists>s'. run [OnTransactionStarted False, Close, OnTransactionCompleted False]
           (exampleSession 0 False) = Inr s' \<and>
         state s' = CLOSED \<and> count_list (trace s') OnCloseFinish = 1 \<and>
         count_list (trace s') Destroy = 1 \<and> count_list (trace s') TransportReset = 1 \<and>
         transport s' = None) \<and>
   (\<exists>s'. checkClosed ((exampleSession 0 False)\<lparr>state := CLOSING\<rparr>) = Inr s' \<and>
         state s' = CLOSED \<and>
         trace s' = [SetReadCB True, SetReadCB False, TransportReset, OnCloseFinish, Destroy]) \<and>
   (\<exists>s'. close (exampleSession 0 False) = Inr s' \<and> state s' = CLOSED \<and>
         inFlight s' = 0 \<and> pendingWrites s' = [])"
proof (intro conjI)
  let ?s = "exampleSession 0 False"
  let ?cs = "[OnTransactionStarted False, Close, OnTransactionCompleted False]"
  have "\<exists>s'. run ?cs ?s = Inr s' \<and> state s' = CLOSED"
    by (simp add: onTransactionStarted_def onTransactionCompleted_def close_def closeWith_def
          checkClosed_def Let_def exampleSession_fields)
  then obtain s' where r: "run ?cs ?s = Inr s'" and c: "state s' = CLOSED"
    by blast
  from state_progression [of ?cs ?s s'] r c
  have "count_list (trace s') OnCloseFinish = 1 \<and> count_list (trace s') Destroy = 1 \<and>
        count_list (trace s') TransportReset = 1 \<and> transport s' = None"
    by (simp add: exampleSession_fields)
  with r c show "\<exists>s'. run ?cs ?s = Inr s' \<and> state s' = CLOSED \<and>
      count_list (trace s') OnCloseFinish = 1 \<and> count_list (trace s') Destroy = 1 \<and>
      count_list (trace s') TransportReset = 1 \<and> transport s' = None"
    by blast
next
  let ?s = "(exampleSession 0 False)\<lparr>state := CLOSING\<rparr>"
  have "\<exists>s'. checkClosed ?s = Inr s' \<and> state s' = CLOSED"
    by (simp add: checkClosed_def Let_def exampleSession_fields)
  then obtain s' where k: "checkClosed ?s = Inr s'" and c: "state s' = CLOSED"
    by blast
  from state_progression [of "[]" ?s s'] k c
  have "s' = ?s\<lparr>state := CLOSED, transport := None, trace := trace ?s @ closedEvents ?s\<rparr>"
    by simp
  then have "trace s' = [SetReadCB True, SetReadCB False, TransportReset, OnCloseFinish, Destroy]"
    by (simp add: closedEvents_def exampleSession_fields)
  with k c show "\<exists>s'. checkClosed ?s = Inr s' \<and> state s' = CLOSED \<and>
      trace s' = [SetReadCB True, SetReadCB False, TransportReset, OnCloseFinish, Destroy]"
    by blast
next
  let ?s = "exampleSession 0 False"
  obtain s' where k: "close ?s = Inr s'" and c: "state s' = CLOSED"
    using close_exampleSession [of 0 False] by simp
  from state_progression [of "[]" ?s s'] k c
  have "inFlight s' = 0 \<and> pendingWrites s' = []"
    by (simp add: exampleSession_fields)
  with k c show "\<exists>s'. close ?s = Inr s' \<and> state s' = CLOSED \<and>
      inFlight s' = 0 \<and> pendingWrites s' = []"
    by blast
qed

section \<open>Transaction accounting and throttling\<close>

















end
